theory Spec2Isabelle
  imports Complex_Main "HOL-Library.Word" "HOL-Library.Char_ord" "HOL-Library.List_Lexorder"
    "HOL-Library.Sublist" "HOL-Library.AList"
begin

unbundle bit_operations_syntax

section \<open>The TCP file server (tcp\_server.py)\<close>

text \<open>
  Python \<open>bytes\<close> are lists of 8-bit words, Python integers are \<open>int\<close> or, where they
  are lengths and indices that cannot be negative, \<open>nat\<close>.  A slice \<open>b[i:j]\<close> is
  \<open>take (j - i) (drop i b)\<close>.  An exception is a value of \<open>py_error\<close>.
\<close>

type_synonym byte = "8 word"

datatype py_error =
    StructError
  | ValueError string
  | UnboundLocalError string
  | KeyError string
  | OSError string

subsection \<open>CRC8 table\<close>

definition CRC8_POLY :: byte where
  "CRC8_POLY = 0x07"

text \<open>One round of the inner loop of \<open>_build_crc8_table\<close>; the mask \<open>& 0xFF\<close> is the
  width of the word.\<close>

definition crc8_round :: "byte \<Rightarrow> byte \<Rightarrow> byte" where
  "crc8_round poly crc =
     (if crc AND 0x80 \<noteq> 0 then push_bit 1 crc XOR poly else push_bit 1 crc)"

definition build_crc8_table :: "byte \<Rightarrow> byte list" where
  "build_crc8_table poly = map (\<lambda>v. (crc8_round poly ^^ 8) (of_nat v)) [0..<256]"

definition CRC8_TABLE :: "byte list" where
  "CRC8_TABLE = build_crc8_table CRC8_POLY"

definition calculate_crc8 :: "byte list \<Rightarrow> byte" where
  "calculate_crc8 bs = foldl (\<lambda>crc b. CRC8_TABLE ! unat (crc XOR b)) 0 bs"

subsection \<open>Framing codec\<close>

text \<open>\<open>struct.pack\<close> and \<open>struct.unpack\<close> with the little-endian formats \<open><I\<close> (four
  bytes) and \<open><H\<close> (two bytes); packing a value that does not fit raises.\<close>

fun le_encode :: "nat \<Rightarrow> nat \<Rightarrow> byte list" where
  "le_encode 0 n = []"
| "le_encode (Suc k) n = of_nat (n mod 256) # le_encode k (n div 256)"

definition le_decode :: "byte list \<Rightarrow> nat" where
  "le_decode bs = foldr (\<lambda>b acc. unat b + 256 * acc) bs 0"

definition pack_I :: "nat \<Rightarrow> py_error + byte list" where
  "pack_I n = (if n < 2 ^ 32 then Inr (le_encode 4 n) else Inl StructError)"

definition pack_H :: "nat \<Rightarrow> py_error + byte list" where
  "pack_H n = (if n < 2 ^ 16 then Inr (le_encode 2 n) else Inl StructError)"

text \<open>The dictionary \<open>frame\<close> that \<open>parse_frame\<close> returns.\<close>

record frame =
  command :: byte
  format :: byte
  sequence :: nat
  data :: "byte list"
  data_length :: nat
  crc :: byte

text \<open>What \<open>parse_frame\<close> writes to the log.\<close>

datatype diagnostic =
    LengthError nat
  | CrcWarning byte byte
  | TrailerError nat

text \<open>The search loop for the magic bytes \<open>0xAA 0x55\<close>: the first index \<open>i\<close> with
  \<open>buffer[i] = 0xAA\<close> and \<open>buffer[i + 1] = 0x55\<close>.\<close>

fun find_magic :: "byte list \<Rightarrow> nat option" where
  "find_magic (a # b # rest) =
     (if a = 0xAA \<and> b = 0x55 then Some 0 else map_option Suc (find_magic (b # rest)))"
| "find_magic _ = None"

definition parse_frame :: "byte list \<Rightarrow> diagnostic list \<times> (frame \<times> nat) option" where
  "parse_frame buffer0 =
     (if length buffer0 < 13 then ([], None)
      else case find_magic buffer0 of
        None \<Rightarrow> ([], None)
      | Some magic_index \<Rightarrow>
          let buffer = (if magic_index > 0 then drop magic_index buffer0 else buffer0) in
          if length buffer < 6 then ([], None)
          else
            let dlen = le_decode (take 4 (drop 2 buffer)) in
            if dlen > 4 * 1024 * 1024 then ([LengthError dlen], None)
            else
              let total_length = 13 + dlen in
              if length buffer < total_length then ([], None)
              else
                let seq = le_decode (take 2 (drop 6 buffer));
                    cmd = buffer ! 8;
                    format_type = buffer ! 9;
                    data_start = 10;
                    data_end = data_start + dlen;
                    payload = take (data_end - data_start) (drop data_start buffer);
                    crc8 = buffer ! data_end;
                    calculated_crc8 = calculate_crc8 (take (data_end - 2) (drop 2 buffer));
                    log = (if crc8 \<noteq> calculated_crc8
                           then [CrcWarning calculated_crc8 crc8] else []);
                    trailer_pos = data_end + 1
                in
                if trailer_pos + 1 \<ge> length buffer then (log, None)
                else
                  let trailer = push_bit 8 (unat (buffer ! trailer_pos))
                                  OR unat (buffer ! (trailer_pos + 1)) in
                  if trailer \<noteq> 0x55AA then (log @ [TrailerError trailer], None)
                  else
                    (log, Some (\<lparr>command = cmd, format = format_type, sequence = seq,
                                 data = payload, data_length = dlen, crc = crc8\<rparr>,
                               total_length)))"

text \<open>\<open>build_response_frame\<close> on a body that is already \<open>bytes\<close> (the branch
  \<open>data if isinstance(data, bytes)\<close>); a dictionary is first encoded to such a body.\<close>

definition build_response_frame :: "byte \<Rightarrow> byte \<Rightarrow> byte list \<Rightarrow> nat \<Rightarrow> py_error + byte list" where
  "build_response_frame cmd format_type data_bytes seq =
     (case pack_I (length data_bytes) of
        Inl e \<Rightarrow> Inl e
      | Inr len_bytes \<Rightarrow>
          (case pack_H seq of
             Inl e \<Rightarrow> Inl e
           | Inr seq_bytes \<Rightarrow>
               let fr = [0xAA, 0x55] @ len_bytes @ seq_bytes @ [cmd] @ [format_type] @ data_bytes;
                   crc8 = calculate_crc8 (drop 2 fr)
               in Inr (fr @ [crc8] @ [0x55] @ [0xAA])))"

subsection \<open>Facts about the codec's arithmetic\<close>

lemma byte_less: "unat (b::byte) < 256"
  using unsigned_less [of b, where ?'a=nat] by simp

lemma le_decode_Nil: "le_decode [] = 0"
  by (simp add: le_decode_def)

lemma le_decode_Cons: "le_decode (b # bs) = unat b + 256 * le_decode bs"
  by (simp add: le_decode_def)

lemma le_decode_encode: "n < 256 ^ k \<Longrightarrow> le_decode (le_encode k n) = n"
proof (induction k arbitrary: n)
  case 0
  then show ?case by (simp add: le_decode_Nil)
next
  case (Suc k)
  have "n div 256 < 256 ^ k"
    using Suc.prems by (simp add: less_mult_imp_div_less mult.commute)
  then have "le_decode (le_encode k (n div 256)) = n div 256" by (rule Suc.IH)
  moreover have "unat (of_nat (n mod 256) :: byte) = n mod 256"
    by (simp add: unat_of_nat)
  ultimately show ?case by (simp add: le_decode_Cons)
qed

lemma le_encode_decode: "le_encode (length bs) (le_decode bs) = bs"
proof (induction bs)
  case Nil
  then show ?case by (simp add: le_decode_Nil)
next
  case (Cons b bs)
  have lt: "unat b < 256" by (rule byte_less)
  have m: "of_nat ((unat b + 256 * le_decode bs) mod 256) = b" using lt by simp
  have d: "(unat b + 256 * le_decode bs) div 256 = le_decode bs" using lt by simp
  have "le_encode (Suc (length bs)) (unat b + 256 * le_decode bs) =
          of_nat ((unat b + 256 * le_decode bs) mod 256)
            # le_encode (length bs) ((unat b + 256 * le_decode bs) div 256)"
    by (rule le_encode.simps(2))
  also have "\<dots> = b # bs" by (simp only: m d Cons.IH)
  finally show ?case by (simp only: le_decode_Cons length_Cons)
qed

lemma le_decode_less: "le_decode bs < 256 ^ length bs"
proof (induction bs)
  case Nil
  then show ?case by (simp add: le_decode_Nil)
next
  case (Cons b bs)
  have "unat b < 256" by (rule byte_less)
  moreover have "le_decode bs + 1 \<le> 256 ^ length bs" using Cons.IH by simp
  then have "256 * (le_decode bs + 1) \<le> 256 * 256 ^ length bs" by (rule mult_le_mono2)
  ultimately show ?case by (simp add: le_decode_Cons)
qed

lemma push_and_take: "push_bit 8 x AND take_bit 8 (y::nat) = 0"
  by (auto simp: bit_eq_iff bit_simps)

lemma shift_or:
  fixes a b :: byte
  shows "push_bit 8 (unat a) OR unat b = 256 * unat a + unat b"
proof -
  have "unat b < 2 ^ 8" using byte_less [of b] by simp
  then have tb: "take_bit 8 (unat b) = unat b" by (rule take_bit_nat_eq_self)
  have "push_bit 8 (unat a) AND unat b = 0"
    using push_and_take [of "unat a" "unat b"] tb by simp
  then have "push_bit 8 (unat a) + unat b = push_bit 8 (unat a) OR unat b"
    by (rule disjunctive_add_eq_or)
  then show ?thesis by (simp add: push_bit_eq_mult)
qed

lemma two_bytes_value:
  assumes "x < 256" "y < 256"
  shows "(256 * x + y = 21930) \<longleftrightarrow> (x = 85 \<and> y = (170::nat))"
proof
  assume e: "256 * x + y = 21930"
  have "(256 * x + y) div 256 = x" "(256 * x + y) mod 256 = y" using assms by simp_all
  then show "x = 85 \<and> y = 170" unfolding e by simp
next
  assume "x = 85 \<and> y = 170"
  then show "256 * x + y = 21930" by simp
qed

lemma trailer_iff:
  fixes a b :: byte
  shows "(push_bit 8 (unat a) OR unat b = (21930::nat)) \<longleftrightarrow> (a = 85 \<and> b = 170)"
proof -
  have "(256 * unat a + unat b = 21930) \<longleftrightarrow> (unat a = 85 \<and> unat b = 170)"
    using byte_less [of a] byte_less [of b] by (rule two_bytes_value)
  moreover have "(a = 85) = (unat a = 85)" by (simp add: word_unat_eq_iff)
  moreover have "(b = 170) = (unat b = 170)" by (simp add: word_unat_eq_iff)
  ultimately show ?thesis by (simp add: shift_or)
qed

lemma funpow8: "(f ^^ 8) x = f (f (f (f (f (f (f (f x)))))))"
  by (simp add: eval_nat_numeral)

lemma crc8_table_nth: "CRC8_TABLE ! unat (x::byte) = (crc8_round CRC8_POLY ^^ 8) x"
proof -
  have "unat x < 256" by (rule byte_less)
  then show ?thesis by (simp add: CRC8_TABLE_def build_crc8_table_def)
qed

lemma calculate_crc8_unfold:
  "calculate_crc8 bs = foldl (\<lambda>c b. (crc8_round CRC8_POLY ^^ 8) (c XOR b)) 0 bs"
  by (simp add: calculate_crc8_def crc8_table_nth)

subsection \<open>Extracting frames from the read buffer\<close>

lemma parse_frame_Some:
  assumes "snd (parse_frame b) = Some (fr, n)"
  shows "13 \<le> n \<and> 13 \<le> length b"
proof -
  have l: "13 \<le> length b" using assms by (cases "length b < 13") (simp_all add: parse_frame_def)
  have "13 \<le> n" using assms
    by (simp add: parse_frame_def Let_def split: if_splits option.splits)
  with l show ?thesis by simp
qed

text \<open>The extraction loop of \<open>handle_frame_protocol\<close>: parse a frame, cut the
  consumed bytes off the buffer, handle the frame, and go on until \<open>parse_frame\<close>
  returns \<open>None\<close>.  The result is the frames handled, in order, and the buffer that is
  kept for the next read.  Handling a frame does not touch the buffer.\<close>

function handle_frame_protocol :: "byte list \<Rightarrow> frame list \<times> byte list" where
  "handle_frame_protocol buffer =
     (case snd (parse_frame buffer) of
        None \<Rightarrow> ([], buffer)
      | Some (fr, consumed) \<Rightarrow>
          (case handle_frame_protocol (drop consumed buffer) of
             (frs, rest) \<Rightarrow> (fr # frs, rest)))"
  by pat_completeness auto
termination
proof (relation "measure length")
  show "wf (measure length)" by simp
next
  fix buffer :: "byte list" and x2 x y
  assume "snd (parse_frame buffer) = Some x2" and "(x, y) = x2"
  then have "snd (parse_frame buffer) = Some (x, y)" by simp
  then have "13 \<le> y \<and> 13 \<le> length buffer" by (rule parse_frame_Some)
  then have "length buffer - y < length buffer" by arith
  then show "(drop y buffer, buffer) \<in> measure length" by simp
qed

declare handle_frame_protocol.simps [simp del]

text \<open>A well-formed frame: the magic prefix, a declared length of at most 4 MiB that is
  the length of the payload, and the trailer \<open>0x55 0xAA\<close>.  The CRC byte is any byte.\<close>

definition well_formed_frame :: "byte list \<Rightarrow> bool" where
  "well_formed_frame f \<longleftrightarrow>
     13 \<le> length f \<and> f ! 0 = 0xAA \<and> f ! 1 = 0x55 \<and>
     (let n = le_decode (take 4 (drop 2 f)) in
        n \<le> 4194304 \<and> length f = 13 + n \<and> f ! (11 + n) = 0x55 \<and> f ! (12 + n) = 0xAA)"

text \<open>The fields of a well-formed frame, read at their places in the layout.\<close>

definition frame_fields :: "byte list \<Rightarrow> frame" where
  "frame_fields f =
     \<lparr>command = f ! 8, format = f ! 9, sequence = le_decode (take 2 (drop 6 f)),
      data = take (length f - 13) (drop 10 f), data_length = length f - 13,
      crc = f ! (length f - 3)\<rparr>"

text \<open>The stored CRC byte is the CRC8 of the bytes from the length field through the end
  of the payload; \<open>crc_log\<close> is the warning \<open>parse_frame\<close> logs when it is not.\<close>

definition crc_matches :: "byte list \<Rightarrow> bool" where
  "crc_matches f \<longleftrightarrow> f ! (length f - 3) = calculate_crc8 (take (length f - 5) (drop 2 f))"

definition crc_log :: "byte list \<Rightarrow> diagnostic list" where
  "crc_log f = (if crc_matches f then []
     else [CrcWarning (calculate_crc8 (take (length f - 5) (drop 2 f))) (f ! (length f - 3))])"

text \<open>The same bytes with the stored CRC byte replaced by the computed one.\<close>

definition fix_crc :: "byte list \<Rightarrow> byte list" where
  "fix_crc f = f[length f - 3 := calculate_crc8 (take (length f - 5) (drop 2 f))]"

lemma find_magic_front:
  "2 \<le> length f \<Longrightarrow> f ! 0 = 0xAA \<Longrightarrow> f ! 1 = 0x55 \<Longrightarrow> find_magic (f @ r) = Some 0"
  by (cases f; cases "tl f") auto

lemma parse_frame_full:
  assumes "well_formed_frame f"
  shows "parse_frame (f @ r) = (crc_log f, Some (frame_fields f, length f))"
proof -
  define n where "n = le_decode (take 4 (drop 2 f))"
  have wf: "13 \<le> length f \<and> f ! 0 = 0xAA \<and> f ! 1 = 0x55 \<and>
     (n \<le> 4194304 \<and> length f = 13 + n \<and> f ! (11 + n) = 0x55 \<and> f ! (12 + n) = 0xAA)"
    using assms unfolding well_formed_frame_def Let_def n_def by (rule iffD1 [OF refl])
  then have len: "length f = 13 + n" and n: "n \<le> 4194304" and ge: "13 \<le> length f"
    and m: "f ! 0 = 0xAA" "f ! 1 = 0x55" and t: "f ! (11 + n) = 0x55" "f ! (12 + n) = 0xAA"
    by blast+
  have fm: "find_magic (f @ r) = Some 0" using ge m by (intro find_magic_front) simp_all
  have tk: "take 4 (drop 2 (f @ r)) = take 4 (drop 2 f)" using ge by simp
  have dl: "le_decode (take 4 (drop 2 (f @ r))) = n" unfolding tk n_def by (rule refl)
  have idx: "11 + n < length f" "12 + n < length f" "10 + n < length f" "8 < length f" "9 < length f"
    unfolding len by simp_all
  have nth: "(f @ r) ! (11 + n) = f ! (11 + n)" "(f @ r) ! (12 + n) = f ! (12 + n)"
    "(f @ r) ! (10 + n) = f ! (10 + n)" "(f @ r) ! 8 = f ! 8" "(f @ r) ! 9 = f ! 9"
    using idx by (simp_all only: nth_append if_True)
  have tr: "push_bit 8 (unat ((f @ r) ! (11 + n))) OR unat ((f @ r) ! (12 + n)) = (21930::nat)"
    unfolding nth t by (simp add: trailer_iff)
  have l13: "\<not> length (f @ r) < 13" "\<not> length (f @ r) < 6" "\<not> length (f @ r) < 13 + n"
    "\<not> length (f @ r) \<le> 12 + n" unfolding length_append len by simp_all
  have sl: "take 2 (drop 6 (f @ r)) = take 2 (drop 6 f)" using ge by simp
  have "n \<le> length f - 10" unfolding len by simp
  then have sl2: "take n (drop 10 (f @ r)) = take n (drop 10 f)" by simp
  have "8 + n \<le> length f - 2" unfolding len by simp
  then have sl3: "take (8 + n) (drop 2 (f @ r)) = take (8 + n) (drop 2 f)" by simp
  have ff: "frame_fields f = \<lparr>command = f ! 8, format = f ! 9, sequence = le_decode (take 2 (drop 6 f)),
      data = take n (drop 10 f), data_length = n, crc = f ! (10 + n)\<rparr>"
    unfolding frame_fields_def len by simp
  have cl: "crc_log f = (if f ! (10 + n) \<noteq> calculate_crc8 (take (8 + n) (drop 2 f))
       then [CrcWarning (calculate_crc8 (take (8 + n) (drop 2 f))) (f ! (10 + n))] else [])"
    unfolding crc_log_def crc_matches_def len by simp
  have ar: "10 + n + 1 = 11 + n" "10 + n + 1 + 1 = 12 + n" "11 + n + 1 = 12 + n" "10 + n - 10 = n"
    "10 + n - 2 = 8 + n" by simp_all
  have tr2: "push_bit 8 (unat (f ! (11 + n))) OR unat (f ! (12 + n)) = (21930::nat)"
    unfolding t by (simp add: trailer_iff)
  have big: "\<not> 4 * 1024 * 1024 < n" using n by simp
  have l12: "12 + n < length (f @ r)" unfolding length_append len by simp
  show ?thesis
    unfolding parse_frame_def Let_def fm ff cl
    apply (simp only: l13 if_False if_True option.case less_irrefl snd_conv ar tr nth sl sl2 sl3 dl)
    apply (simp only: big l12 if_False if_True not_True_eq_False not_False_eq_True tr2 simp_thms
             snd_conv len)
    done
qed

lemma parse_frame_prefix:
  assumes "well_formed_frame f"
  shows "snd (parse_frame (f @ r)) = Some (frame_fields f, length f)"
  by (simp add: parse_frame_full [OF assms])

lemma handle_frame_protocol_two:
  assumes "well_formed_frame f" and "well_formed_frame g"
  shows "handle_frame_protocol (f @ g) = ([frame_fields f, frame_fields g], [])"
proof -
  have e: "snd (parse_frame []) = None" by (simp add: parse_frame_def)
  have g: "snd (parse_frame g) = Some (frame_fields g, length g)"
    using parse_frame_prefix [OF assms(2), of "[]"] by simp
  have f: "snd (parse_frame (f @ g)) = Some (frame_fields f, length f)"
    by (rule parse_frame_prefix [OF assms(1)])
  have h0: "handle_frame_protocol [] = ([], [])"
    by (subst handle_frame_protocol.simps) (simp add: e)
  have h1: "handle_frame_protocol g = ([frame_fields g], [])"
    by (subst handle_frame_protocol.simps) (simp add: g h0)
  show ?thesis
    by (subst handle_frame_protocol.simps) (simp add: f h1)
qed

lemma frame_layout:
  assumes "well_formed_frame f"
  shows "f = [0xAA, 0x55] @ take 4 (drop 2 f) @ take 2 (drop 6 f) @ [f ! 8] @ [f ! 9]
             @ take (length f - 13) (drop 10 f) @ [f ! (length f - 3)] @ [0x55] @ [0xAA]"
proof -
  define n where "n = le_decode (take 4 (drop 2 f))"
  have wf: "13 \<le> length f \<and> f ! 0 = 0xAA \<and> f ! 1 = 0x55 \<and>
     (n \<le> 4194304 \<and> length f = 13 + n \<and> f ! (11 + n) = 0x55 \<and> f ! (12 + n) = 0xAA)"
    using assms unfolding well_formed_frame_def Let_def n_def by (rule iffD1 [OF refl])
  then have len: "length f = 13 + n" and ge: "13 \<le> length f"
    and m: "f ! 0 = 0xAA" "f ! 1 = 0x55" and t: "f ! (11 + n) = 0x55" "f ! (12 + n) = 0xAA"
    by blast+
  have t1: "take 1 f = [f ! 0]" using ge by (cases f) simp_all
  have "take (Suc 1) f = take 1 f @ [f ! 1]" using ge by (intro take_Suc_conv_app_nth) simp
  then have t2: "take 2 f = [0xAA, 0x55]" using t1 m by (simp add: numeral_2_eq_2)
  have t6: "take (2 + 4) f = take 2 f @ take 4 (drop 2 f)" by (rule take_add)
  have t8: "take (6 + 2) f = take 6 f @ take 2 (drop 6 f)" by (rule take_add)
  have t9: "take (Suc 8) f = take 8 f @ [f ! 8]" using ge by (intro take_Suc_conv_app_nth) simp
  have t10: "take (Suc 9) f = take 9 f @ [f ! 9]" using ge by (intro take_Suc_conv_app_nth) simp
  have tn: "take (10 + n) f = take 10 f @ take n (drop 10 f)" by (rule take_add)
  have tc: "take (Suc (10 + n)) f = take (10 + n) f @ [f ! (10 + n)]"
    unfolding len by (intro take_Suc_conv_app_nth) (simp add: len)
  have tt1: "take (Suc (11 + n)) f = take (11 + n) f @ [f ! (11 + n)]"
    by (intro take_Suc_conv_app_nth) (simp add: len)
  have tt2: "take (Suc (12 + n)) f = take (12 + n) f @ [f ! (12 + n)]"
    by (intro take_Suc_conv_app_nth) (simp add: len)
  have all: "take (Suc (12 + n)) f = f" by (simp add: len)
  have "f = take 2 f @ take 4 (drop 2 f) @ take 2 (drop 6 f) @ [f ! 8] @ [f ! 9]
             @ take n (drop 10 f) @ [f ! (10 + n)] @ [f ! (11 + n)] @ [f ! (12 + n)]"
    using t6 t8 t9 t10 tn tc tt1 tt2 all by simp
  moreover have "length f - 13 = n" "length f - 3 = 10 + n" unfolding len by simp_all
  ultimately show ?thesis unfolding t2 t by simp
qed

lemma build_response_frame_layout:
  assumes "length d < 2 ^ 32" "length sb = 2" "length lb = 4" "le_decode lb = length d"
  shows "build_response_frame c fm d (le_decode sb) =
     Inr ([0xAA, 0x55] @ lb @ sb @ [c] @ [fm] @ d
          @ [calculate_crc8 (lb @ sb @ [c] @ [fm] @ d)] @ [0x55] @ [0xAA])"
proof -
  have "le_decode sb < 256 ^ length sb" by (rule le_decode_less)
  then have s: "le_decode sb < 2 ^ 16" using assms(2) by simp
  have se: "le_encode 2 (le_decode sb) = sb" using le_encode_decode [of sb] assms(2) by simp
  have le: "le_encode 4 (length d) = lb" using le_encode_decode [of lb] assms(3,4) by simp
  show ?thesis
    using assms(1) s by (simp add: build_response_frame_def pack_I_def pack_H_def se le Let_def)
qed

lemma encode_decoded:
  assumes "well_formed_frame f" "crc_matches f"
  shows "build_response_frame (command (frame_fields f)) (format (frame_fields f))
           (data (frame_fields f)) (sequence (frame_fields f)) = Inr f"
proof -
  define n where "n = le_decode (take 4 (drop 2 f))"
  define lb where "lb = take 4 (drop 2 f)"
  define sb where "sb = take 2 (drop 6 f)"
  define d where "d = take (length f - 13) (drop 10 f)"
  have wf: "13 \<le> length f \<and> f ! 0 = 0xAA \<and> f ! 1 = 0x55 \<and>
     (n \<le> 4194304 \<and> length f = 13 + n \<and> f ! (11 + n) = 0x55 \<and> f ! (12 + n) = 0xAA)"
    using assms(1) unfolding well_formed_frame_def Let_def n_def by (rule iffD1 [OF refl])
  then have len: "length f = 13 + n" and n: "n \<le> 4194304" and ge: "13 \<le> length f" by blast+
  have ld: "length d = n" using len by (simp add: d_def)
  have lsb: "length sb = 2" unfolding sb_def using ge by simp
  have llb: "length lb = 4" unfolding lb_def using ge by simp
  have dn: "le_decode lb = length d" unfolding ld lb_def n_def by (rule refl)
  have small: "length d < 2 ^ 32" unfolding ld using n by simp
  have lay: "f = [0xAA, 0x55] @ lb @ sb @ [f ! 8] @ [f ! 9] @ d @ [f ! (length f - 3)] @ [0x55] @ [0xAA]"
    unfolding lb_def sb_def d_def by (rule frame_layout [OF assms(1)])
  define p where "p = lb @ sb @ [f ! 8] @ [f ! 9] @ d"
  have "drop 2 f = p @ [f ! (length f - 3)] @ [0x55] @ [0xAA]"
    unfolding p_def by (subst lay) simp
  moreover have "length f - 5 = length p"
    unfolding len p_def by (simp add: ld lsb llb)
  ultimately have "take (length f - 5) (drop 2 f) = p" by simp
  then have "take (length f - 5) (drop 2 f) = lb @ sb @ [f ! 8] @ [f ! 9] @ d"
    unfolding p_def .
  then have c: "calculate_crc8 (lb @ sb @ [f ! 8] @ [f ! 9] @ d) = f ! (length f - 3)"
    using assms(2) unfolding crc_matches_def by simp
  have "build_response_frame (f ! 8) (f ! 9) d (le_decode sb) =
     Inr ([0xAA, 0x55] @ lb @ sb @ [f ! 8] @ [f ! 9] @ d
          @ [calculate_crc8 (lb @ sb @ [f ! 8] @ [f ! 9] @ d)] @ [0x55] @ [0xAA])"
    using small lsb llb dn by (rule build_response_frame_layout)
  then have "build_response_frame (f ! 8) (f ! 9) d (le_decode sb) = Inr f"
    unfolding c using lay by simp
  then show ?thesis unfolding frame_fields_def d_def sb_def by simp
qed

lemma fix_crc_props:
  assumes "well_formed_frame f"
  shows "well_formed_frame (fix_crc f)"
    and "crc_matches (fix_crc f)"
    and "frame_fields (fix_crc f) =
           (frame_fields f)\<lparr>crc := calculate_crc8 (take (length f - 5) (drop 2 f))\<rparr>"
    and "length (fix_crc f) = length f"
proof -
  define n where "n = le_decode (take 4 (drop 2 f))"
  define c where "c = calculate_crc8 (take (length f - 5) (drop 2 f))"
  define g where "g = f[10 + n := c]"
  have wf: "13 \<le> length f \<and> f ! 0 = 0xAA \<and> f ! 1 = 0x55 \<and>
     (n \<le> 4194304 \<and> length f = 13 + n \<and> f ! (11 + n) = 0x55 \<and> f ! (12 + n) = 0xAA)"
    using assms(1) unfolding well_formed_frame_def Let_def n_def by (rule iffD1 [OF refl])
  then have len: "length f = 13 + n" and n: "n \<le> 4194304" and ge: "13 \<le> length f"
    and m: "f ! 0 = 0xAA" "f ! 1 = 0x55" and t: "f ! (11 + n) = 0x55" "f ! (12 + n) = 0xAA"
    by blast+
  have fg: "fix_crc f = g" unfolding fix_crc_def g_def c_def len by simp
  have lg: "length g = 13 + n" unfolding g_def using len by simp
  have d2: "drop 2 g = (drop 2 f)[8 + n := c]" unfolding g_def by (simp add: drop_update_swap)
  have t4: "take 4 (drop 2 g) = take 4 (drop 2 f)" unfolding d2 by simp
  have t8: "take (8 + n) (drop 2 g) = take (8 + n) (drop 2 f)" unfolding d2 by simp
  have d6: "take 2 (drop 6 g) = take 2 (drop 6 f)" unfolding g_def by (simp add: drop_update_swap)
  have d10: "take n (drop 10 g) = take n (drop 10 f)" unfolding g_def by (simp add: drop_update_swap)
  have ng: "g ! 0 = f ! 0" "g ! 1 = f ! 1" "g ! 8 = f ! 8" "g ! 9 = f ! 9"
    "g ! (11 + n) = f ! (11 + n)" "g ! (12 + n) = f ! (12 + n)"
    unfolding g_def by simp_all
  have gc: "g ! (10 + n) = c" unfolding g_def using len by simp
  have ar: "13 + n - 3 = 10 + n" "13 + n - 5 = 8 + n" "13 + n - 13 = n" by simp_all
  show "well_formed_frame (fix_crc f)"
    unfolding fg well_formed_frame_def Let_def t4 lg ng n_def [symmetric]
    using m t n by simp
  show "crc_matches (fix_crc f)"
    unfolding fg crc_matches_def lg ar gc t8 unfolding c_def len ar by (rule refl)
  show "frame_fields (fix_crc f) =
           (frame_fields f)\<lparr>crc := calculate_crc8 (take (length f - 5) (drop 2 f))\<rparr>"
    unfolding fg frame_fields_def lg ar ng gc d6 d10 c_def len by simp
  show "length (fix_crc f) = length f" unfolding fg lg len by (rule refl)
qed

subsection \<open>Claims about the framing codec\<close>

lemma crc8_eval: "calculate_crc8 [0, 0, 0, 0, 1, 0, 1, 2] = 13"
  by (simp add: calculate_crc8_unfold funpow8 crc8_round_def CRC8_POLY_def)

lemma ping_frame_well_formed:
  "well_formed_frame [0xAA, 0x55, 0, 0, 0, 0, 1, 0, 1, 2, c, 0x55, 0xAA]"
  by (simp add: well_formed_frame_def le_decode_def)

lemma ping_frame_fields:
  "frame_fields [0xAA, 0x55, 0, 0, 0, 0, 1, 0, 1, 2, c, 0x55, 0xAA] =
     \<lparr>command = 1, format = 2, sequence = 1, data = [], data_length = 0, crc = c\<rparr>"
  by (simp add: frame_fields_def le_decode_def)

lemma ping_frame_crc:
  "crc_matches [0xAA, 0x55, 0, 0, 0, 0, 1, 0, 1, 2, c, 0x55, 0xAA] \<longleftrightarrow> c = 13"
  by (simp add: crc_matches_def crc8_eval)

text \<open>Bytes before the frame that do not hold the magic prefix are skipped.\<close>

lemma find_magic_skip:
  assumes "find_magic pre = None"
  shows "find_magic (pre @ 0xAA # 0x55 # rest) = Some (length pre)"
  using assms by (induction pre rule: find_magic.induct) (auto split: if_splits)

lemma parse_frame_skip:
  assumes "find_magic pre = None" and "well_formed_frame f"
  shows "parse_frame (pre @ f @ r) = parse_frame (f @ r)"
proof -
  have ge: "13 \<le> length f" and m: "f ! 0 = 0xAA" "f ! 1 = 0x55"
    using assms(2) by (simp_all add: well_formed_frame_def)
  obtain rest where f: "f = 0xAA # 0x55 # rest"
    using ge m by (cases f; cases "tl f") auto
  have a: "find_magic (pre @ f @ r) = Some (length pre)"
    unfolding f using find_magic_skip [OF assms(1), of "rest @ r"] by simp
  have b: "find_magic (f @ r) = Some 0" unfolding f by simp
  have l: "\<not> length (pre @ f @ r) < 13" "\<not> length (f @ r) < 13" using ge by simp_all
  have d: "(if 0 < length pre then drop (length pre) (pre @ f @ r) else pre @ f @ r) = f @ r"
    by simp
  show ?thesis
    unfolding parse_frame_def [of "pre @ f @ r"] parse_frame_def [of "f @ r"]
    by (simp only: l if_False a b option.case d less_irrefl)
qed

text \<open>
  Claim C3, as the code has it.  In a buffer that holds a well-formed frame, after bytes
  without the magic prefix if any, whose stored CRC byte differs from the CRC8 of the bytes
  from the length field through the end of the payload, \<open>parse_frame\<close> still returns the
  frame, with one warning in the log and nothing else.  The frame decoded from the same
  buffer with the correct CRC byte has the same command, format, sequence, data and data
  length; the two differ in the field \<open>crc\<close>, which holds the stored byte.
\<close>

theorem crc_mismatch_frame_returned:
  assumes "well_formed_frame f" and "\<not> crc_matches f" and "find_magic pre = None"
  shows "parse_frame (pre @ f @ r) =
           ([CrcWarning (calculate_crc8 (take (length f - 5) (drop 2 f))) (f ! (length f - 3))],
            Some (frame_fields f, length f))
       \<and> well_formed_frame (fix_crc f) \<and> crc_matches (fix_crc f)
       \<and> parse_frame (pre @ fix_crc f @ r) =
           ([], Some ((frame_fields f)\<lparr>crc := calculate_crc8 (take (length f - 5) (drop 2 f))\<rparr>,
                      length f))"
proof -
  have a: "parse_frame (pre @ f @ r) =
           ([CrcWarning (calculate_crc8 (take (length f - 5) (drop 2 f))) (f ! (length f - 3))],
            Some (frame_fields f, length f))"
    unfolding parse_frame_skip [OF assms(3,1)]
    using parse_frame_full [OF assms(1), of r] assms(2) by (simp add: crc_log_def)
  have w: "well_formed_frame (fix_crc f)" and c: "crc_matches (fix_crc f)"
    by (rule fix_crc_props [OF assms(1)])+
  have "parse_frame (fix_crc f @ r) =
          (crc_log (fix_crc f), Some (frame_fields (fix_crc f), length (fix_crc f)))"
    by (rule parse_frame_full [OF w])
  then have b: "parse_frame (pre @ fix_crc f @ r) =
           ([], Some ((frame_fields f)\<lparr>crc := calculate_crc8 (take (length f - 5) (drop 2 f))\<rparr>,
                      length f))"
    unfolding parse_frame_skip [OF assms(3) w]
    using c by (simp add: crc_log_def fix_crc_props(3,4) [OF assms(1)])
  from a w c b show ?thesis by simp
qed

theorem crc_mismatch_frame_returned_witness:
  "well_formed_frame [0xAA, 0x55, 0, 0, 0, 0, 1, 0, 1, 2, 0, 0x55, 0xAA]
   \<and> \<not> crc_matches [0xAA, 0x55, 0, 0, 0, 0, 1, 0, 1, 2, 0, 0x55, 0xAA]
   \<and> find_magic [0x55, 0xAA] = None
   \<and> parse_frame ([0x55, 0xAA] @ [0xAA, 0x55, 0, 0, 0, 0, 1, 0, 1, 2, 0, 0x55, 0xAA] @ [0xAA]) =
        ([CrcWarning 13 0],
         Some (\<lparr>command = 1, format = 2, sequence = 1, data = [], data_length = 0, crc = 0\<rparr>, 13))
   \<and> parse_frame ([0x55, 0xAA] @ fix_crc [0xAA, 0x55, 0, 0, 0, 0, 1, 0, 1, 2, 0, 0x55, 0xAA]
                       @ [0xAA]) =
        ([],
         Some (\<lparr>command = 1, format = 2, sequence = 1, data = [], data_length = 0, crc = 13\<rparr>, 13))"
proof -
  have w: "well_formed_frame [0xAA, 0x55, 0, 0, 0, 0, 1, 0, 1, 2, 0, 0x55, 0xAA]"
    by (rule ping_frame_well_formed)
  have c: "\<not> crc_matches [0xAA, 0x55, 0, 0, 0, 0, 1, 0, 1, 2, 0, 0x55, 0xAA]"
    by (simp add: ping_frame_crc)
  have m: "find_magic [0x55, 0xAA] = None" by simp
  show ?thesis
    using crc_mismatch_frame_returned [OF w c m, of "[0xAA]"] w c m
    by (simp add: ping_frame_fields crc8_eval)
qed

text \<open>
  Claim C3 as stated says that the two decoded frames are identical.  They are not: the
  dictionary has the key \<open>crc\<close>, and it is 0 in one and 13 in the other.
\<close>

theorem crc_mismatch_frame_counterexample:
  "snd (parse_frame [0xAA, 0x55, 0, 0, 0, 0, 1, 0, 1, 2, 0, 0x55, 0xAA]) =
     Some (\<lparr>command = 1, format = 2, sequence = 1, data = [], data_length = 0, crc = 0\<rparr>, 13)
   \<and> calculate_crc8 [0, 0, 0, 0, 1, 0, 1, 2] = 13
   \<and> snd (parse_frame [0xAA, 0x55, 0, 0, 0, 0, 1, 0, 1, 2, 13, 0x55, 0xAA]) =
     Some (\<lparr>command = 1, format = 2, sequence = 1, data = [], data_length = 0, crc = 13\<rparr>, 13)
   \<and> \<lparr>command = 1, format = 2, sequence = 1, data = [], data_length = 0, crc = (0::byte)\<rparr>
       \<noteq> \<lparr>command = 1, format = 2, sequence = 1, data = [], data_length = 0, crc = 13\<rparr>"
  using parse_frame_prefix [OF ping_frame_well_formed, of 0 "[]"]
        parse_frame_prefix [OF ping_frame_well_formed, of 13 "[]"]
  by (simp add: ping_frame_fields crc8_eval)

text \<open>
  Claim C5, as the code has it.  Every well-formed frame is decoded to its fields; encoding
  the decoded fields with \<open>build_response_frame\<close> gives the frame back byte for byte
  when its CRC byte is the computed one; and from a buffer that is two well-formed frames
  one after the other, the extraction loop yields exactly the two frames, in order, and
  leaves an empty buffer.
\<close>

theorem frame_roundtrip_and_streaming:
  assumes "well_formed_frame f" and "well_formed_frame g"
  shows "snd (parse_frame f) = Some (frame_fields f, length f)
       \<and> (crc_matches f \<longrightarrow>
            build_response_frame (command (frame_fields f)) (format (frame_fields f))
              (data (frame_fields f)) (sequence (frame_fields f)) = Inr f)
       \<and> snd (parse_frame g) = Some (frame_fields g, length g)
       \<and> handle_frame_protocol (f @ g) = ([frame_fields f, frame_fields g], [])"
proof -
  have "snd (parse_frame f) = Some (frame_fields f, length f)"
    using parse_frame_prefix [OF assms(1), of "[]"] by simp
  moreover have "snd (parse_frame g) = Some (frame_fields g, length g)"
    using parse_frame_prefix [OF assms(2), of "[]"] by simp
  moreover have "crc_matches f \<longrightarrow>
            build_response_frame (command (frame_fields f)) (format (frame_fields f))
              (data (frame_fields f)) (sequence (frame_fields f)) = Inr f"
    using encode_decoded [OF assms(1)] by blast
  moreover have "handle_frame_protocol (f @ g) = ([frame_fields f, frame_fields g], [])"
    using assms by (rule handle_frame_protocol_two)
  ultimately show ?thesis by blast
qed

theorem frame_roundtrip_and_streaming_witness:
  "well_formed_frame [0xAA, 0x55, 0, 0, 0, 0, 1, 0, 1, 2, 13, 0x55, 0xAA]
   \<and> well_formed_frame [0xAA, 0x55, 0, 0, 0, 0, 1, 0, 1, 2, 0, 0x55, 0xAA]
   \<and> crc_matches [0xAA, 0x55, 0, 0, 0, 0, 1, 0, 1, 2, 13, 0x55, 0xAA]
   \<and> build_response_frame 1 2 [] 1 = Inr [0xAA, 0x55, 0, 0, 0, 0, 1, 0, 1, 2, 13, 0x55, 0xAA]
   \<and> handle_frame_protocol ([0xAA, 0x55, 0, 0, 0, 0, 1, 0, 1, 2, 13, 0x55, 0xAA]
                              @ [0xAA, 0x55, 0, 0, 0, 0, 1, 0, 1, 2, 0, 0x55, 0xAA]) =
       ([\<lparr>command = 1, format = 2, sequence = 1, data = [], data_length = 0, crc = 13\<rparr>,
         \<lparr>command = 1, format = 2, sequence = 1, data = [], data_length = 0, crc = 0\<rparr>], [])"
  using frame_roundtrip_and_streaming [OF ping_frame_well_formed ping_frame_well_formed, of 13 0]
  by (simp add: ping_frame_fields ping_frame_crc ping_frame_well_formed)

text \<open>
  Claim C5 as stated asks the round trip of every well-formed frame, and a frame with a
  wrong CRC byte is well formed and is decoded.  The encoder computes the CRC byte anew, so
  the bytes that come back differ in that byte.
\<close>

theorem frame_roundtrip_counterexample:
  "well_formed_frame [0xAA, 0x55, 0, 0, 0, 0, 1, 0, 1, 2, 0, 0x55, 0xAA]
   \<and> snd (parse_frame [0xAA, 0x55, 0, 0, 0, 0, 1, 0, 1, 2, 0, 0x55, 0xAA]) =
       Some (\<lparr>command = 1, format = 2, sequence = 1, data = [], data_length = 0, crc = 0\<rparr>, 13)
   \<and> build_response_frame 1 2 [] 1 \<noteq> Inr [0xAA, 0x55, 0, 0, 0, 0, 1, 0, 1, 2, 0, 0x55, 0xAA]"
proof -
  have "crc_matches [0xAA, 0x55, 0, 0, 0, 0, 1, 0, 1, 2, 13, 0x55, 0xAA]"
    by (simp add: ping_frame_crc)
  then have "build_response_frame 1 2 [] 1 = Inr [0xAA, 0x55, 0, 0, 0, 0, 1, 0, 1, 2, 13, 0x55, 0xAA]"
    using encode_decoded [OF ping_frame_well_formed, of 13] by (simp add: ping_frame_fields)
  then show ?thesis
    using parse_frame_prefix [OF ping_frame_well_formed, of 0 "[]"]
    by (simp add: ping_frame_fields ping_frame_well_formed)
qed

lemma find_magic_take2:
  assumes "take 2 buf = [0xAA, 0x55]"
  shows "find_magic (buf @ later) = Some 0"
proof -
  obtain a b rest where "buf = a # b # rest"
    using assms by (cases buf; cases "tl buf") auto
  then show ?thesis using assms by simp
qed

text \<open>
  Claim C4, as the code has it.  When the buffer starts with the magic bytes and the length
  field says more than 4 MiB, \<open>parse_frame\<close> returns \<open>None\<close>: no frame, and so no
  payload, is extracted.  It logs the length error when the buffer holds at least 13 bytes,
  and nothing when it holds fewer, since the test on the 13 bytes of the smallest frame
  comes first.  The extraction loop then stops with no frame handled and the whole buffer
  kept, whatever bytes follow the header: nothing is dropped and no later frame of the
  buffer is decoded.
\<close>

theorem oversized_length_keeps_buffer:
  assumes "take 2 buf = [0xAA, 0x55]" and "6 \<le> length buf"
    and "4194304 < le_decode (take 4 (drop 2 buf))"
  shows "parse_frame (buf @ later) =
           (if length (buf @ later) < 13 then []
            else [LengthError (le_decode (take 4 (drop 2 buf)))], None)
       \<and> handle_frame_protocol (buf @ later) = ([], buf @ later)"
proof -
  have fm: "find_magic (buf @ later) = Some 0" using assms(1) by (rule find_magic_take2)
  have tk: "take 4 (drop 2 (buf @ later)) = take 4 (drop 2 buf)" using assms(2) by simp
  have big: "4 * 1024 * 1024 < le_decode (take 4 (drop 2 buf))" using assms(3) by simp
  have pf: "parse_frame (buf @ later) =
           (if length (buf @ later) < 13 then []
            else [LengthError (le_decode (take 4 (drop 2 buf)))], None)"
    unfolding parse_frame_def fm Let_def tk using big assms(2) by simp
  then have n: "snd (parse_frame (buf @ later)) = None" by simp
  have "handle_frame_protocol (buf @ later) = ([], buf @ later)"
    by (subst handle_frame_protocol.simps) (simp add: n)
  with pf show ?thesis by simp
qed

text \<open>A header of 13 bytes that declares 4194305 bytes is refused with the length error in
  the log; its first 10 bytes alone are refused with nothing in the log.\<close>

theorem oversized_length_keeps_buffer_witness:
  "take 2 [0xAA, 0x55, 1, 0, 0x40, 0, 0, 0, 1, 2, 0, 0x55, 0xAA::byte] = [0xAA, 0x55]
   \<and> le_decode (take 4 (drop 2 [0xAA, 0x55, 1, 0, 0x40, 0, 0, 0, 1, 2, 0, 0x55, 0xAA])) = 4194305
   \<and> parse_frame ([0xAA, 0x55, 1, 0, 0x40, 0, 0, 0, 1, 2, 0, 0x55, 0xAA] @ []) =
        ([LengthError 4194305], None)
   \<and> handle_frame_protocol ([0xAA, 0x55, 1, 0, 0x40, 0, 0, 0, 1, 2, 0, 0x55, 0xAA] @ []) =
        ([], [0xAA, 0x55, 1, 0, 0x40, 0, 0, 0, 1, 2, 0, 0x55, 0xAA])
   \<and> parse_frame ([0xAA, 0x55, 1, 0, 0x40, 0, 0, 0, 1, 2] @ []) = ([], None)
   \<and> handle_frame_protocol ([0xAA, 0x55, 1, 0, 0x40, 0, 0, 0, 1, 2] @ []) =
        ([], [0xAA, 0x55, 1, 0, 0x40, 0, 0, 0, 1, 2])"
proof -
  have l: "le_decode (take 4 (drop 2 [0xAA, 0x55, 1, 0, 0x40, 0, 0, 0, 1, 2, 0, 0x55, 0xAA])) = 4194305"
    by (simp add: le_decode_def)
  have h: "take 2 [0xAA, 0x55, 1, 0, 0x40, 0, 0, 0, 1, 2, 0, 0x55, 0xAA::byte] = [0xAA, 0x55]"
    "6 \<le> length [0xAA, 0x55, 1, 0, 0x40, 0, 0, 0, 1, 2, 0, 0x55, 0xAA::byte]"
    "4194304 < le_decode (take 4 (drop 2 [0xAA, 0x55, 1, 0, 0x40, 0, 0, 0, 1, 2, 0, 0x55, 0xAA]))"
    unfolding l by simp_all
  have l': "le_decode (take 4 (drop 2 [0xAA, 0x55, 1, 0, 0x40, 0, 0, 0, 1, 2])) = 4194305"
    by (simp add: le_decode_def)
  have h': "take 2 [0xAA, 0x55, 1, 0, 0x40, 0, 0, 0, 1, 2::byte] = [0xAA, 0x55]"
    "6 \<le> length [0xAA, 0x55, 1, 0, 0x40, 0, 0, 0, 1, 2::byte]"
    "4194304 < le_decode (take 4 (drop 2 [0xAA, 0x55, 1, 0, 0x40, 0, 0, 0, 1, 2]))"
    unfolding l' by simp_all
  show ?thesis
    using oversized_length_keeps_buffer [OF h, of "[]"]
          oversized_length_keeps_buffer [OF h', of "[]"] l
    by simp
qed

text \<open>
  Claim C4 as stated says that the buffer is dropped to the next magic bytes so that the
  frames behind the oversized header can still be decoded.  Here a header that declares
  4194305 bytes is followed by a complete frame: alone the frame is decoded, behind the
  header it is not, and the buffer comes back whole.
\<close>

theorem oversized_length_counterexample:
  "le_decode (take 4 (drop 2 [0xAA, 0x55, 1, 0, 0x40, 0, 0, 0, 1, 2, 0, 0x55, 0xAA])) = 4194305
   \<and> handle_frame_protocol [0xAA, 0x55, 0, 0, 0, 0, 1, 0, 1, 2, 13, 0x55, 0xAA] =
       ([\<lparr>command = 1, format = 2, sequence = 1, data = [], data_length = 0, crc = 13\<rparr>], [])
   \<and> handle_frame_protocol ([0xAA, 0x55, 1, 0, 0x40, 0, 0, 0, 1, 2, 0, 0x55, 0xAA]
                              @ [0xAA, 0x55, 0, 0, 0, 0, 1, 0, 1, 2, 13, 0x55, 0xAA]) =
       ([], [0xAA, 0x55, 1, 0, 0x40, 0, 0, 0, 1, 2, 0, 0x55, 0xAA]
            @ [0xAA, 0x55, 0, 0, 0, 0, 1, 0, 1, 2, 13, 0x55, 0xAA])"
proof -
  have l: "le_decode (take 4 (drop 2 [0xAA, 0x55, 1, 0, 0x40, 0, 0, 0, 1, 2, 0, 0x55, 0xAA])) = 4194305"
    by (simp add: le_decode_def)
  have e: "snd (parse_frame []) = None" by (simp add: parse_frame_def)
  have h0: "handle_frame_protocol [] = ([], [])"
    by (subst handle_frame_protocol.simps) (simp add: e)
  have g: "handle_frame_protocol [0xAA, 0x55, 0, 0, 0, 0, 1, 0, 1, 2, 13, 0x55, 0xAA] =
       ([\<lparr>command = 1, format = 2, sequence = 1, data = [], data_length = 0, crc = 13\<rparr>], [])"
    using parse_frame_prefix [OF ping_frame_well_formed, of 13 "[]"]
    by (subst handle_frame_protocol.simps) (simp add: ping_frame_fields h0)
  have p: "snd (parse_frame ([0xAA, 0x55, 1, 0, 0x40, 0, 0, 0, 1, 2, 0, 0x55, 0xAA]
                              @ [0xAA, 0x55, 0, 0, 0, 0, 1, 0, 1, 2, 13, 0x55, 0xAA])) = None"
    by (simp add: parse_frame_def le_decode_def)
  have b: "handle_frame_protocol ([0xAA, 0x55, 1, 0, 0x40, 0, 0, 0, 1, 2, 0, 0x55, 0xAA]
                              @ [0xAA, 0x55, 0, 0, 0, 0, 1, 0, 1, 2, 13, 0x55, 0xAA]) =
       ([], [0xAA, 0x55, 1, 0, 0x40, 0, 0, 0, 1, 2, 0, 0x55, 0xAA]
            @ [0xAA, 0x55, 0, 0, 0, 0, 1, 0, 1, 2, 13, 0x55, 0xAA])"
    by (subst handle_frame_protocol.simps) (simp only: p option.case)
  from l g b show ?thesis by blast
qed

section \<open>Path sandbox\<close>

text \<open>
  A resolved absolute POSIX path is the list of its components, \<open>[]\<close> for \<open>/\<close>.
  \<open>path_parts\<close> is how \<open>pathlib\<close> reads a string: split at \<open>/\<close>, empty components and
  \<open>.\<close> dropped, \<open>..\<close> kept.  \<open>path_join\<close> is the operator \<open>/\<close> of \<open>Path\<close>: an absolute
  right operand replaces the left one.  \<open>resolve\<close> is \<open>Path.resolve()\<close> on a file system
  without symbolic links: \<open>..\<close> steps to the parent, and stays at the root there.
  \<open>path_str\<close> is \<open>str(path)\<close>.
\<close>

fun split_sep :: "string \<Rightarrow> string \<Rightarrow> string list" where
  "split_sep cur [] = [cur]"
| "split_sep cur (c # cs) =
     (if c = CHR ''/'' then cur # split_sep [] cs else split_sep (cur @ [c]) cs)"

definition path_parts :: "string \<Rightarrow> string list" where
  "path_parts s = filter (\<lambda>p. p \<noteq> [] \<and> p \<noteq> ''.'') (split_sep [] s)"

definition startswith :: "string \<Rightarrow> string \<Rightarrow> bool" where
  "startswith s p \<longleftrightarrow> take (length p) s = p"

definition path_join :: "string list \<Rightarrow> string \<Rightarrow> string list" where
  "path_join base s = (if startswith s ''/'' then path_parts s else base @ path_parts s)"

definition resolve :: "string list \<Rightarrow> string list" where
  "resolve parts = foldl (\<lambda>acc c. if c = ''..'' then butlast acc else acc @ [c]) [] parts"

definition path_str :: "string list \<Rightarrow> string" where
  "path_str parts = (if parts = [] then ''/'' else concat (map (\<lambda>c. CHR ''/'' # c) parts))"

definition get_safe_path :: "string list \<Rightarrow> string \<Rightarrow> py_error + string list" where
  "get_safe_path root_dir path0 =
     (let path = (if startswith path0 ''/'' then drop 1 path0 else path0);
          target_path = resolve (path_join root_dir path)
      in if \<not> startswith (path_str target_path) (path_str root_dir)
         then Inl (ValueError path)
         else Inr target_path)"

text \<open>A path lies under the root when the root's components are a prefix of its own.\<close>

definition is_under :: "string list \<Rightarrow> string list \<Rightarrow> bool" where
  "is_under root_dir p \<longleftrightarrow> prefix root_dir p"

text \<open>
  Claim C1 at a failing input.  With the root \<open>/srv/root\<close>, the request path
  \<open>/../root_evil/x\<close> resolves to \<open>/srv/root_evil/x\<close>, which is outside the root, and
  \<open>get_safe_path\<close> returns it: the check compares the two paths as strings, and
  \<open>/srv/root_evil/x\<close> starts with \<open>/srv/root\<close>.  The path \<open>/../etc/passwd\<close> of the
  specification is refused.
\<close>

theorem get_safe_path_sibling_escape:
  "get_safe_path [''srv'', ''root''] ''/../root_evil/x'' = Inr [''srv'', ''root_evil'', ''x'']
   \<and> \<not> is_under [''srv'', ''root''] [''srv'', ''root_evil'', ''x'']
   \<and> get_safe_path [''srv'', ''root''] ''/../etc/passwd'' = Inl (ValueError ''../etc/passwd'')"
  by (simp add: get_safe_path_def startswith_def path_join_def path_parts_def resolve_def
        path_str_def is_under_def)

section \<open>Requests, responses and the server's state\<close>

text \<open>
  A response is a Python dictionary: a map from keys to values.  The message texts of the
  source are not ASCII; each is given by an English gloss.
\<close>

datatype pyval =
    PBool bool
  | PInt int
  | PStr string
  | PBytes "byte list"
  | PList "pyval list"
  | PDict "(string \<times> pyval) list"

type_synonym response = "string \<rightharpoonup> pyval"

text \<open>
  The request dictionary that \<open>decode_unified_request\<close> builds, with the keys the handlers
  below read; a key that is absent is \<open>None\<close>.  \<open>req_client_id\<close> is the key
  \<open>__client_id\<close> that the connection pump adds.  The decoder never sets the keys
  \<open>action\<close> and \<open>sessionId\<close>, which \<open>handle_download_req\<close> reads as a fallback.
\<close>

record request =
  req_operation :: "string option"
  req_path :: "string option"
  req_name :: "string option"
  req_data :: "byte list option"
  req_options :: "(string \<rightharpoonup> string) option"
  req_chunkIndex :: "int option"
  req_totalChunks :: "int option"
  req_fileSize :: "int option"
  req_chunkSize :: "int option"
  req_client_id :: "string option"
  req_action :: "string option"
  req_sessionId :: "string option"

text \<open>The file system under the server: resolved paths and what is there.  The root
  \<open>/\<close> is a directory.  Symbolic links, permissions and a full disk are not modelled.\<close>

datatype node = File "byte list" | Dir

type_synonym filesystem = "(string list \<times> node) list"

definition lookup :: "filesystem \<Rightarrow> string list \<Rightarrow> node option" where
  "lookup files p = (if p = [] then Some Dir else map_of files p)"

definition path_exists :: "filesystem \<Rightarrow> string list \<Rightarrow> bool" where
  "path_exists files p \<longleftrightarrow> lookup files p \<noteq> None"

definition is_file :: "filesystem \<Rightarrow> string list \<Rightarrow> bool" where
  "is_file files p \<longleftrightarrow> (case lookup files p of Some (File _) \<Rightarrow> True | _ \<Rightarrow> False)"

definition is_dir :: "filesystem \<Rightarrow> string list \<Rightarrow> bool" where
  "is_dir files p \<longleftrightarrow> lookup files p = Some Dir"

text \<open>The dictionaries kept in \<open>self.download_sessions\<close> and \<open>self.upload_sessions\<close>.\<close>

record download_session =
  path :: string
  absolutePath :: "string list"
  fileSize :: int
  chunkSize :: int
  totalChunks :: int
  nextChunk :: int
  bytesSent :: int
  startTime :: real
  clientId :: string
  servedChunks :: "int set"

record upload_session =
  upload_path :: string
  filename :: string
  file_path :: "string list"
  total_chunks :: int
  chunk_size :: int
  file_size :: int
  start_time :: real
  last_activity :: real
  received_chunks :: "int set"
  bytes_received :: int
  handle :: "string list option"

text \<open>
  The server object.  A session dictionary is an object: \<open>download_objects\<close> holds the
  download session objects by address, in the order of their creation, and
  \<open>download_sessions\<close> maps a session id to the address of the object stored under it,
  so that storing a new dictionary under an id that is in use leaves the old object as it
  is.  \<open>upload_sessions\<close> keeps the insertion order of the keys, which the fallback to the
  latest session reads.
\<close>

record server =
  root_dir :: "string list"
  files :: filesystem
  upload_sessions :: "(string \<times> upload_session) list"
  download_objects :: "download_session list"
  download_sessions :: "string \<rightharpoonup> nat"

definition MAX_STREAM_CHUNK_BYTES :: int where
  "MAX_STREAM_CHUNK_BYTES = 4 * 1024 * 1024"

definition DEFAULT_STREAM_CHUNK_BYTES :: int where
  "DEFAULT_STREAM_CHUNK_BYTES = 2 * 1024 * 1024"

definition MIN_STREAM_CHUNK_BYTES :: int where
  "MIN_STREAM_CHUNK_BYTES = 64 * 1024"

text \<open>\<open>d.get(key, default)\<close> on a key that may be absent.\<close>

definition get_or :: "'a \<Rightarrow> 'a option \<Rightarrow> 'a" where
  "get_or dflt v = (case v of None \<Rightarrow> dflt | Some x \<Rightarrow> x)"

lemma get_or_simps [simp]: "get_or dflt None = dflt" "get_or dflt (Some x) = x"
  by (simp_all add: get_or_def)

text \<open>Python's \<open>a or b\<close> on strings that may be absent, and \<open>if not s\<close>.\<close>

definition truthy :: "string option \<Rightarrow> bool" where
  "truthy v \<longleftrightarrow> (case v of None \<Rightarrow> False | Some s \<Rightarrow> s \<noteq> [])"

definition or_else :: "string option \<Rightarrow> string option \<Rightarrow> string option" where
  "or_else a b = (if truthy a then a else b)"

text \<open>The value of \<open>options.get(k) or request.get(k)\<close> and of
  \<open>request.get(k) or options.get(k)\<close> for a key that is a string in the options and an
  integer in the request, and the local function \<open>_to_int\<close>.  Python's \<open>int\<close> on a
  string is the parameter \<open>int_of_str\<close> (\<open>None\<close> where it raises \<open>ValueError\<close>).\<close>

datatype hint = HNone | HStr string | HInt int

definition option_or_request :: "string option \<Rightarrow> int option \<Rightarrow> hint" where
  "option_or_request o_val r_val =
     (if truthy o_val then HStr (the o_val)
      else case r_val of None \<Rightarrow> HNone | Some n \<Rightarrow> HInt n)"

definition request_or_option :: "int option \<Rightarrow> string option \<Rightarrow> hint" where
  "request_or_option r_val o_val =
     (case r_val of
        Some n \<Rightarrow> (if n \<noteq> 0 then HInt n
                   else case o_val of None \<Rightarrow> HNone | Some s \<Rightarrow> HStr s)
      | None \<Rightarrow> (case o_val of None \<Rightarrow> HNone | Some s \<Rightarrow> HStr s))"

definition to_int :: "(string \<Rightarrow> int option) \<Rightarrow> hint \<Rightarrow> int \<Rightarrow> int" where
  "to_int int_of_str v dflt =
     (case v of
        HNone \<Rightarrow> dflt
      | HInt n \<Rightarrow> n
      | HStr s \<Rightarrow> (case int_of_str s of None \<Rightarrow> dflt | Some n \<Rightarrow> n))"

text \<open>\<open>int(x)\<close> on a float truncates towards zero; \<open>str(n)\<close> on an integer.\<close>

definition py_int :: "real \<Rightarrow> int" where
  "py_int x = (if 0 \<le> x then \<lfloor>x\<rfloor> else \<lceil>x\<rceil>)"

fun str_nat :: "nat \<Rightarrow> string" where
  "str_nat n = (if n < 10 then [''0123456789'' ! n]
                else str_nat (n div 10) @ [''0123456789'' ! (n mod 10)])"

definition str_int :: "int \<Rightarrow> string" where
  "str_int i = (if i < 0 then CHR ''-'' # str_nat (nat (- i)) else str_nat (nat i))"

definition path_name :: "string list \<Rightarrow> string" where
  "path_name p = (if p = [] then [] else last p)"

declare str_nat.simps [simp del]

section \<open>Download sessions\<close>

definition fail :: "string \<Rightarrow> response" where
  "fail msg = [''success'' \<mapsto> PBool False, ''message'' \<mapsto> PStr msg]"

text \<open>\<open>open(absolute_path, 'rb')\<close>, \<open>seek(start_offset)\<close> and \<open>read(chunk_size)\<close>.\<close>

definition read_chunk :: "filesystem \<Rightarrow> string list \<Rightarrow> int \<Rightarrow> int \<Rightarrow> py_error + byte list" where
  "read_chunk fls p start_offset n =
     (case lookup fls p of
        Some (File content) \<Rightarrow>
          if start_offset < 0 then Inl (OSError ''seek'')
          else Inr (take (nat n) (drop (nat start_offset) content))
      | _ \<Rightarrow> Inl (OSError ''open''))"

definition stat_size :: "filesystem \<Rightarrow> string list \<Rightarrow> int" where
  "stat_size fls p = (case lookup fls p of Some (File content) \<Rightarrow> int (length content) | _ \<Rightarrow> 0)"

text \<open>The branch \<open>action == 'start'\<close>.\<close>

definition download_start ::
  "(string \<Rightarrow> int option) \<Rightarrow> real \<Rightarrow> request \<Rightarrow> (string \<rightharpoonup> string) \<Rightarrow> string \<Rightarrow> string
     \<Rightarrow> string list \<Rightarrow> server \<Rightarrow> response \<times> server" where
  "download_start int_of_str now request opts client_id fpath target_path self =
     (let requested_chunk = option_or_request (opts ''chunkSize'') (req_chunkSize request);
          chunk_bytes = max MIN_STREAM_CHUNK_BYTES
                          (min (to_int int_of_str requested_chunk DEFAULT_STREAM_CHUNK_BYTES)
                               MAX_STREAM_CHUNK_BYTES);
          file_size = stat_size (files self) target_path;
          total_chunks = max 1 ((file_size + chunk_bytes - 1) div chunk_bytes);
          session_id = ''dl_'' @ str_int (py_int (now * 1000)) @ ''_'' @ path_name target_path;
          session = \<lparr>path = fpath, absolutePath = target_path, fileSize = file_size,
                     chunkSize = chunk_bytes, totalChunks = total_chunks, nextChunk = 0,
                     bytesSent = 0, startTime = now, clientId = client_id, servedChunks = {}\<rparr>
      in ([''success'' \<mapsto> PBool True, ''message'' \<mapsto> PStr ''download session created'',
           ''sessionId'' \<mapsto> PStr session_id, ''acceptedChunkSize'' \<mapsto> PInt chunk_bytes,
           ''totalChunks'' \<mapsto> PInt total_chunks, ''fileSize'' \<mapsto> PInt file_size,
           ''supportsResume'' \<mapsto> PBool True],
          self\<lparr>download_objects := download_objects self @ [session],
               download_sessions := (download_sessions self)(session_id \<mapsto> length (download_objects self))\<rparr>))"

text \<open>The update of the session after a chunk was read: the index joins \<open>servedChunks\<close>
  and the bytes are counted once for each index, and \<open>nextChunk\<close> moves to at least the
  index after the one served.\<close>

definition mark_served :: "download_session \<Rightarrow> int \<Rightarrow> int \<Rightarrow> download_session" where
  "mark_served session requested_index n =
     (let session1 =
            (if requested_index \<notin> servedChunks session
             then session\<lparr>servedChunks := insert requested_index (servedChunks session),
                          bytesSent := bytesSent session + n\<rparr>
             else session)
      in session1\<lparr>nextChunk := max (nextChunk session1) (requested_index + 1)\<rparr>)"

text \<open>The code from \<open>session = self.download_sessions[session_id]\<close> to the return of the
  chunk.  \<open>addr\<close> is the address of the session object stored under \<open>session_id\<close>.\<close>

definition download_chunk ::
  "(string \<Rightarrow> int option) \<Rightarrow> request \<Rightarrow> (string \<rightharpoonup> string) \<Rightarrow> string \<Rightarrow> nat
     \<Rightarrow> server \<Rightarrow> response \<times> server" where
  "download_chunk int_of_str request opts session_id addr self =
     (let session = download_objects self ! addr;
          chunk_size = chunkSize session;
          file_size = fileSize session;
          total_chunks = totalChunks session;
          absolute_path = absolutePath session;
          requested_index = to_int int_of_str
              (request_or_option (req_chunkIndex request) (opts ''chunkIndex'')) (nextChunk session)
      in if requested_index < 0 \<or> requested_index \<ge> total_chunks
         then (fail ''chunk index out of range'', self)
         else
           let start_offset = requested_index * chunk_size in
           case read_chunk (files self) absolute_path start_offset chunk_size of
             Inl e \<Rightarrow> (fail ''chunked download failed'', self)
           | Inr chunk_data \<Rightarrow>
               if chunk_data = []
               then ([''success'' \<mapsto> PBool True, ''message'' \<mapsto> PStr ''end of file reached'',
                      ''data'' \<mapsto> PBytes [], ''fileSize'' \<mapsto> PInt file_size,
                      ''chunkIndex'' \<mapsto> PInt requested_index, ''totalChunks'' \<mapsto> PInt total_chunks,
                      ''sessionId'' \<mapsto> PStr session_id, ''done'' \<mapsto> PBool True], self)
               else
                 let session2 = mark_served session requested_index (int (length chunk_data))
                 in ([''success'' \<mapsto> PBool True, ''message'' \<mapsto> PStr ''chunk fetched'',
                      ''data'' \<mapsto> PBytes chunk_data, ''fileSize'' \<mapsto> PInt file_size,
                      ''chunkIndex'' \<mapsto> PInt requested_index, ''totalChunks'' \<mapsto> PInt total_chunks,
                      ''sessionId'' \<mapsto> PStr session_id],
                     self\<lparr>download_objects := (download_objects self)[addr := session2]\<rparr>))"

text \<open>
  \<open>handle_download_req\<close>.  In the source the statement
  \<open>session = self.download_sessions[session_id]\<close> and all that follows it stand at the
  level of the function, after the block \<open>if action == 'chunk':\<close>, which only looks the
  session up.  So for an action other than \<open>start\<close> and \<open>chunk\<close> the local variable
  \<open>session_id\<close> is read before it is assigned, which raises \<open>UnboundLocalError\<close>; the
  handler's \<open>except Exception\<close> turns it into a failure response.  The blocks
  \<open>if action == 'finish':\<close> and \<open>if action == 'abort':\<close> come after a \<open>return\<close> and are
  never run.
\<close>

definition handle_download_req ::
  "(string \<Rightarrow> int option) \<Rightarrow> real \<Rightarrow> request \<Rightarrow> server \<Rightarrow> response \<times> server" where
  "handle_download_req int_of_str now request self =
     (let client_id = get_or ''unknown'' (req_client_id request);
          file_path = get_or [] (req_path request)
      in if file_path = [] then (fail ''missing file path parameter'', self)
         else case get_safe_path (root_dir self) file_path of
           Inl e \<Rightarrow> (fail ''chunked download failed'', self)
         | Inr target_path \<Rightarrow>
             if \<not> path_exists (files self) target_path then (fail ''file does not exist'', self)
             else if \<not> is_file (files self) target_path then (fail ''not a file'', self)
             else
               let opts = get_or Map.empty (req_options request);
                   action = or_else (opts ''action'') (req_action request)
               in if \<not> truthy action then (fail ''missing download action parameter'', self)
                  else if action = Some ''start''
                  then download_start int_of_str now request opts client_id file_path target_path self
                  else if action = Some ''chunk''
                  then
                    (let session_id = or_else (opts ''sessionId'') (req_sessionId request) in
                     if \<not> truthy session_id then (fail ''download session does not exist'', self)
                     else case download_sessions self (the session_id) of
                       None \<Rightarrow> (fail ''download session does not exist'', self)
                     | Some addr \<Rightarrow> download_chunk int_of_str request opts (the session_id) addr self)
                  else (fail ''chunked download failed'', self))"

subsection \<open>Monotonicity of a download session\<close>


















text \<open>A server with one file of 65537 bytes and a download session on it that has served
  chunk 0.\<close>

definition example_session :: download_session where
  "example_session =
     \<lparr>path = ''/a.bin'', absolutePath = [''srv'', ''root'', ''a.bin''], fileSize = 65537,
      chunkSize = 65536, totalChunks = 2, nextChunk = 1, bytesSent = 65536, startTime = 1,
      clientId = ''10.0.0.1:5000'', servedChunks = {0}\<rparr>"

definition example_server :: server where
  "example_server =
     \<lparr>root_dir = [''srv'', ''root''],
      files = [([''srv''], Dir), ([''srv'', ''root''], Dir),
               ([''srv'', ''root'', ''a.bin''], File (replicate 65537 0))],
      upload_sessions = [],
      download_objects = [example_session],
      download_sessions = [''dl_1000_a.bin'' \<mapsto> 0]\<rparr>"

definition example_request :: "string \<Rightarrow> int option \<Rightarrow> request" where
  "example_request act idx =
     \<lparr>req_operation = Some ''DOWNLOAD_REQ'', req_path = Some ''/a.bin'', req_name = None,
      req_data = None,
      req_options = Some [''action'' \<mapsto> act, ''sessionId'' \<mapsto> ''dl_1000_a.bin''],
      req_chunkIndex = idx, req_totalChunks = None, req_fileSize = None, req_chunkSize = None,
      req_client_id = Some ''10.0.0.1:5000'', req_action = None, req_sessionId = None\<rparr>"

lemma example_target:
  "get_safe_path [''srv'', ''root''] ''/a.bin'' = Inr [''srv'', ''root'', ''a.bin'']"
  by (simp add: get_safe_path_def startswith_def path_join_def path_parts_def resolve_def
        path_str_def)




text \<open>No request with the action \<open>finish\<close> succeeds or changes the server.\<close>

lemma download_finish_never_succeeds:
  assumes "or_else (get_or Map.empty (req_options request) ''action'')
             (req_action request) = Some ''finish''"
  shows "fst (handle_download_req f now request self) ''success'' = Some (PBool False)
       \<and> snd (handle_download_req f now request self) = self"
  using assms unfolding handle_download_req_def Let_def
  by (simp add: fail_def split: sum.splits)

text \<open>
  Claim C2 at a failing input.  The session \<open>dl_1000_a.bin\<close> is in the table; the request
  \<open>DOWNLOAD_REQ\<close> for \<open>/a.bin\<close> with \<open>action = finish\<close> and that session id is answered
  with \<open>success = False\<close>, and the server, its sessions table included, is unchanged.
\<close>

theorem download_finish_fails:
  "download_sessions example_server ''dl_1000_a.bin'' = Some 0
   \<and> handle_download_req (\<lambda>s. None) 2 (example_request ''finish'' None) example_server =
       ([''success'' \<mapsto> PBool False, ''message'' \<mapsto> PStr ''chunked download failed''],
        example_server)"
  by (simp add: handle_download_req_def example_request_def example_server_def example_target
        path_exists_def is_file_def lookup_def or_else_def truthy_def fail_def Let_def)

section \<open>Upload sessions\<close>



text \<open>\<open>seek(offset)\<close> and \<open>write(bs)\<close> on a file's bytes: a gap after the end is filled
  with zero bytes.\<close>

definition write_at :: "byte list \<Rightarrow> nat \<Rightarrow> byte list \<Rightarrow> byte list" where
  "write_at content off bs =
     take off (content @ replicate (off - length content) 0) @ bs @ drop (off + length bs) content"

definition write_file :: "filesystem \<Rightarrow> string list \<Rightarrow> nat \<Rightarrow> byte list \<Rightarrow> filesystem" where
  "write_file fls p off bs =
     (case lookup fls p of
        Some (File content) \<Rightarrow> AList.update p (File (write_at content off bs)) fls
      | _ \<Rightarrow> fls)"



definition new_upload_session :: "real \<Rightarrow> request \<Rightarrow> string list \<Rightarrow> upload_session" where
  "new_upload_session now request full_path =
     (let fsize = get_or 0 (req_fileSize request);
          csize = min (get_or 65536 (req_chunkSize request)) (4 * 1024 * 1024);
          tchunks = get_or 0 (req_totalChunks request);
          tchunks1 = (if tchunks \<le> 0 \<and> csize > 0
                      then max 1 ((fsize + csize - 1) div csize) else tchunks)
      in \<lparr>upload_path = get_or ''/'' (req_path request),
          filename = get_or [] (req_name request), file_path = full_path,
          total_chunks = tchunks1, chunk_size = csize, file_size = fsize,
          start_time = now, last_activity = now, received_chunks = {},
          bytes_received = 0, handle = Some full_path\<rparr>)"


text \<open>The update of the session's metadata after the write: the index joins
  \<open>received_chunks\<close>, and the bytes are added when the index was not there before.\<close>

definition note_received :: "upload_session \<Rightarrow> int \<Rightarrow> int \<Rightarrow> upload_session" where
  "note_received session chunk_index n =
     (let was_received = chunk_index \<in> received_chunks session
      in session\<lparr>received_chunks := insert chunk_index (received_chunks session),
                  bytes_received := (if \<not> was_received then bytes_received session + n
                                     else bytes_received session)\<rparr>)"

text \<open>\<open>handle_upload_data\<close>.  The data of a decoded request is \<open>bytes\<close>, so it is taken as
  it is; when the key is absent it is \<open>b''\<close>.\<close>

definition handle_upload_data :: "real \<Rightarrow> request \<Rightarrow> server \<Rightarrow> response \<times> server" where
  "handle_upload_data now request self =
     (let opts = get_or Map.empty (req_options request);
          given_id = get_or [] (opts ''sessionId'')
      in if given_id = [] \<and> upload_sessions self = []
         then (fail ''no active upload session'', self)
         else
           let session_id = (if given_id = [] then fst (last (upload_sessions self)) else given_id)
           in case map_of (upload_sessions self) session_id of
                None \<Rightarrow> (fail ''upload session does not exist'', self)
              | Some session0 \<Rightarrow>
                  let session = session0\<lparr>last_activity := now\<rparr>;
                      chunk_index = get_or 0 (req_chunkIndex request);
                      decoded_data = get_or [] (req_data request);
                      tchunks = get_or (total_chunks session) (req_totalChunks request);
                      offset = chunk_index * chunk_size session
                  in case (case handle session of
                             Some h \<Rightarrow> Inr h
                           | None \<Rightarrow> if is_file (files self) (file_path session)
                                     then Inr (file_path session) else Inl (OSError ''open'')) of
                       Inl e \<Rightarrow>
                         (fail ''receiving the chunk failed'',
                          self\<lparr>upload_sessions :=
                                 AList.update session_id session (upload_sessions self)\<rparr>)
                     | Inr h \<Rightarrow>
                         let session1 = session\<lparr>handle := Some h\<rparr> in
                         if offset < 0
                         then (fail ''receiving the chunk failed'',
                               self\<lparr>upload_sessions :=
                                      AList.update session_id session1 (upload_sessions self)\<rparr>)
                         else
                           let fls = write_file (files self) h (nat offset) decoded_data;
                               session2 = note_received session1 chunk_index
                                            (int (length decoded_data))
                           in ([''success'' \<mapsto> PBool True,
                                ''message'' \<mapsto> PStr ''chunk received'',
                                ''sessionId'' \<mapsto> PStr session_id,
                                ''chunkIndex'' \<mapsto> PInt chunk_index,
                                ''receivedChunks'' \<mapsto> PInt (int (card (received_chunks session2))),
                                ''totalChunks'' \<mapsto> PInt tchunks],
                               self\<lparr>files := fls,
                                     upload_sessions :=
                                       AList.update session_id session2 (upload_sessions self)\<rparr>))"

subsection \<open>What an upload session has counted\<close>



definition counted :: "(int \<Rightarrow> int) \<Rightarrow> upload_session \<Rightarrow> bool" where
  "counted sz s \<longleftrightarrow> finite (received_chunks s) \<and> bytes_received s = sum sz (received_chunks s)"






text \<open>A session that \<open>UPLOAD_REQ\<close> has just created has counted what it received:
  nothing.\<close>

lemma new_upload_session_counted: "counted sz (new_upload_session now request p)"
  by (simp add: counted_def new_upload_session_def Let_def)







text \<open>A server with an upload session \<open>up1\<close> of two chunks of 4 bytes that has received
  chunk 0, and the request that delivers chunk 0 again.\<close>

definition example_upload_session :: upload_session where
  "example_upload_session =
     \<lparr>upload_path = ''/'', filename = ''b.bin'', file_path = [''srv'', ''root'', ''b.bin''],
      total_chunks = 2, chunk_size = 4, file_size = 8, start_time = 1, last_activity = 1,
      received_chunks = {0}, bytes_received = 4, handle = Some [''srv'', ''root'', ''b.bin'']\<rparr>"

definition example_upload_server :: server where
  "example_upload_server =
     \<lparr>root_dir = [''srv'', ''root''],
      files = [([''srv''], Dir), ([''srv'', ''root''], Dir),
               ([''srv'', ''root'', ''b.bin''], File [1, 2, 3, 4, 0, 0, 0, 0])],
      upload_sessions = [(''up1'', example_upload_session)],
      download_objects = [],
      download_sessions = Map.empty\<rparr>"

definition example_upload_data :: request where
  "example_upload_data =
     \<lparr>req_operation = Some ''UPLOAD_DATA'', req_path = None, req_name = None,
      req_data = Some [1, 2, 3, 4], req_options = Some [''sessionId'' \<mapsto> ''up1''],
      req_chunkIndex = Some 0, req_totalChunks = None, req_fileSize = None, req_chunkSize = None,
      req_client_id = Some ''10.0.0.1:5000'', req_action = None, req_sessionId = None\<rparr>"

lemma example_upload_data_again:
  "snd (handle_upload_data 2 example_upload_data example_upload_server) =
     example_upload_server
       \<lparr>upload_sessions := [(''up1'', example_upload_session\<lparr>last_activity := 2\<rparr>)]\<rparr>"
  by (simp add: handle_upload_data_def example_upload_data_def example_upload_server_def
        example_upload_session_def note_received_def write_file_def write_at_def lookup_def
        Let_def)


subsection \<open>A second \<open>UPLOAD_REQ\<close> under a session id in use\<close>















section \<open>Listing a directory\<close>

text \<open>The children of a directory, in the order in which the file system gives them.\<close>

definition iterdir :: "filesystem \<Rightarrow> string list \<Rightarrow> string list list" where
  "iterdir fls d = [p \<leftarrow> map fst fls. p \<noteq> [] \<and> butlast p = d]"

text \<open>\<open>item.relative_to(self.root_dir)\<close>, which raises when the item is not under the root,
  joined to a string, and \<open>.replace('\\\\', '/')\<close>, which replaces two backslashes in a row
  (the character \<open>0x5C\<close>) by a slash.\<close>

definition relative_to :: "string list \<Rightarrow> string list \<Rightarrow> py_error + string" where
  "relative_to base p =
     (if prefix base p
      then Inr (if drop (length base) p = [] then ''.''
                else drop 1 (path_str (drop (length base) p)))
      else Inl (ValueError ''is not in the subpath''))"

fun replace_backslashes :: "string \<Rightarrow> string" where
  "replace_backslashes (a # b # cs) =
     (if a = CHR 0x5C \<and> b = CHR 0x5C then CHR ''/'' # replace_backslashes cs
      else a # replace_backslashes (b # cs))"
| "replace_backslashes cs = cs"

text \<open>The dictionary \<open>file_info\<close> of an entry, without the keys \<open>lastModified\<close>,
  \<open>permissions\<close> and \<open>isReadonly\<close>, which are read from metadata that the file system
  here does not have.  An entry for which building it raises is skipped.\<close>

definition file_info :: "server \<Rightarrow> string list \<Rightarrow> py_error + pyval" where
  "file_info self item =
     (case relative_to (root_dir self) item of
        Inl e \<Rightarrow> Inl e
      | Inr rel \<Rightarrow>
          Inr (PDict [(''name'', PStr (path_name item)),
                      (''path'', PStr (CHR ''/'' # replace_backslashes rel)),
                      (''type'', PStr (if is_dir (files self) item then ''directory'' else ''file'')),
                      (''size'', PInt (if is_file (files self) item
                                       then stat_size (files self) item else 0))]))"

definition handle_list_files :: "request \<Rightarrow> server \<Rightarrow> response \<times> server" where
  "handle_list_files request self =
     (let lpath = get_or ''/'' (req_path request) in
      case get_safe_path (root_dir self) lpath of
        Inl e \<Rightarrow> (fail ''listing failed'', self)
      | Inr target_path \<Rightarrow>
          if \<not> path_exists (files self) target_path then (fail ''path does not exist'', self)
          else if \<not> is_dir (files self) target_path then (fail ''not a directory'', self)
          else
            let infos = concat (map (\<lambda>item. case file_info self item of
                                               Inl e \<Rightarrow> [] | Inr fi \<Rightarrow> [fi])
                                    (sort (iterdir (files self) target_path)))
            in ([''success'' \<mapsto> PBool True,
                 ''message'' \<mapsto> PStr (''listed '' @ str_int (int (length infos)) @ '' files''),
                 ''files'' \<mapsto> PList infos,
                 ''path'' \<mapsto> PStr lpath], self))"

text \<open>\<open>str.lower\<close> on ASCII letters.\<close>

definition ascii_lower :: "char \<Rightarrow> char" where
  "ascii_lower c =
     get_or c (map_of (zip ''ABCDEFGHIJKLMNOPQRSTUVWXYZ'' ''abcdefghijklmnopqrstuvwxyz'') c)"

definition lower :: "string \<Rightarrow> string" where
  "lower s = map ascii_lower s"

text \<open>A root directory with the directory \<open>a\<close> and the file \<open>B\<close> of one byte.\<close>

definition example_list_server :: server where
  "example_list_server =
     \<lparr>root_dir = [''srv'', ''root''],
      files = [([''srv''], Dir), ([''srv'', ''root''], Dir),
               ([''srv'', ''root'', ''a''], Dir),
               ([''srv'', ''root'', ''B''], File [1])],
      upload_sessions = [],
      download_objects = [],
      download_sessions = Map.empty\<rparr>"

definition example_list_request :: request where
  "example_list_request =
     \<lparr>req_operation = Some ''LIST_FILES'', req_path = Some ''/'', req_name = None,
      req_data = None, req_options = None,
      req_chunkIndex = None, req_totalChunks = None, req_fileSize = None,
      req_chunkSize = None, req_client_id = Some ''10.0.0.1:5000'', req_action = None,
      req_sessionId = None\<rparr>"

lemma example_root: "get_safe_path [''srv'', ''root''] ''/'' = Inr [''srv'', ''root'']"
  by (simp add: get_safe_path_def startswith_def path_join_def path_parts_def resolve_def
        path_str_def)

lemma example_sort:
  "sort [[''srv'', ''root'', ''a''], [''srv'', ''root'', ''B'']] =
     [[''srv'', ''root'', ''B''], [''srv'', ''root'', ''a'']]"
  by (simp add: less_eq_char_def less_char_def)

text \<open>
  Claim C9 at a failing input.  \<open>sorted(target_path.iterdir())\<close> compares the paths as
  they are, so \<open>B\<close> comes before \<open>a\<close>; sorted by name without regard to case, \<open>a\<close>
  comes first.  The directory entry has size 0.
\<close>

theorem list_files_case_sensitive:
  "fst (handle_list_files example_list_request example_list_server) ''files'' =
     Some (PList [PDict [(''name'', PStr ''B''), (''path'', PStr ''/B''),
                         (''type'', PStr ''file''), (''size'', PInt 1)],
                  PDict [(''name'', PStr ''a''), (''path'', PStr ''/a''),
                         (''type'', PStr ''directory''), (''size'', PInt 0)]])
   \<and> lower ''B'' = ''b'' \<and> lower ''a'' = ''a'' \<and> \<not> sorted [''b'', ''a'']"
  by (simp add: handle_list_files_def example_list_request_def example_list_server_def
        example_root path_exists_def is_dir_def is_file_def lookup_def iterdir_def example_sort
        file_info_def relative_to_def path_name_def path_str_def stat_size_def
        lower_def ascii_lower_def less_eq_char_def less_char_def)

section \<open>Request dispatcher\<close>






















end
